theory Spec2Isabelle
  imports Complex_Main "HOL-Library.Word" "HOL-Library.Signed_Division"
begin

section \<open>legacy\_sample: bounded string copy and zero-tolerant division\<close>

text \<open>
  A shallow embedding of \<^verbatim>\<open>src/src/legacy_sample.cpp\<close>. The two functions
  \<^verbatim>\<open>copy_cstr\<close> and \<^verbatim>\<open>safe_div\<close> are C++ functions over raw pointers and
  machine integers, so an execution either returns or has undefined behaviour. Both
  outcomes are values of the model: a call returns \<open>Inr\<close> of its result, or \<open>Inl\<close> of the
  kind of undefined behaviour it runs into.
\<close>

datatype undefined_behaviour =
  OutOfBoundsRead | OutOfBoundsWrite | OverlappingCopy | DivisionByZero | QuotientOverflow

subsection \<open>The type \<^verbatim>\<open>int\<close> and its division\<close>

text \<open>
  \<^verbatim>\<open>int\<close> is the 32-bit two's complement integer of the usual targets. The built-in
  operator \<^verbatim>\<open>/\<close> on \<^verbatim>\<open>int\<close> truncates towards zero (\<open>sdiv\<close> on the signed values),
  and is undefined when the divisor is zero or when the quotient is not representable in
  \<^verbatim>\<open>int\<close>.
\<close>

type_synonym cint = "32 word"

definition INT_MIN :: cint where
  "INT_MIN = - 2147483648"

definition INT_MAX :: cint where
  "INT_MAX = 2147483647"

definition representable :: "int \<Rightarrow> bool" where
  "representable k = (sint INT_MIN \<le> k \<and> k \<le> sint INT_MAX)"

definition int_divide :: "cint \<Rightarrow> cint \<Rightarrow> undefined_behaviour + cint" where
  "int_divide a b =
     (if b = 0 then Inl DivisionByZero
      else let q = sint a sdiv sint b
           in if representable q then Inr (word_of_int q) else Inl QuotientOverflow)"

text \<open>
  \<^verbatim>\<open>int safe_div(int a, int b) { if (b == 0) return 0; return a / b; }\<close>
\<close>

definition safe_div :: "cint \<Rightarrow> cint \<Rightarrow> undefined_behaviour + cint" where
  "safe_div a b = (if b = 0 then Inr 0 else int_divide a b)"

text \<open>
  The specification's truncating quotient, in its own words: the exact quotient of the two
  integers, rounded towards zero. It is stated over the reals and independently of \<open>sdiv\<close>.
\<close>

definition truncating_quotient :: "int \<Rightarrow> int \<Rightarrow> int" where
  "truncating_quotient a b =
     (let x = real_of_int a / real_of_int b in if 0 \<le> x then \<lfloor>x\<rfloor> else \<lceil>x\<rceil>)"

text \<open>A call returns the truncating quotient of the signed values of its operands.\<close>

definition returns_truncating_quotient :: "cint \<Rightarrow> cint \<Rightarrow> bool" where
  "returns_truncating_quotient a b =
     (case safe_div a b of
        Inl _ \<Rightarrow> False
      | Inr r \<Rightarrow> sint r = truncating_quotient (sint a) (sint b))"

text \<open>A call is defined: it returns a value and runs into no undefined behaviour.\<close>

definition div_defined :: "cint \<Rightarrow> cint \<Rightarrow> bool" where
  "div_defined a b = (case safe_div a b of Inl _ \<Rightarrow> False | Inr _ \<Rightarrow> True)"

subsection \<open>Buffers, C strings and \<^verbatim>\<open>copy_cstr\<close>\<close>

text \<open>
  A \<^verbatim>\<open>char*\<close> argument is \<open>None\<close> for \<^verbatim>\<open>nullptr\<close>, or \<open>Some xs\<close> for a pointer to
  an array whose addressable slots, from the pointer on, hold \<open>xs\<close>. An access past the
  last addressable slot is undefined behaviour. For a single call the destination and the
  source are separate objects; a sequence of calls, where the second call reads what the
  first one wrote, is modelled on one memory further down. Values of type \<^verbatim>\<open>size_t\<close> are
  natural numbers; the only subtraction, \<^verbatim>\<open>dst_size - 1\<close>, is taken where
  \<^verbatim>\<open>dst_size\<close> is not zero and cannot wrap around.
\<close>

type_synonym char_ptr = "char list option"

definition NUL :: char where
  "NUL = CHR 0x00"

text \<open>
  \<^verbatim>\<open>std::strlen\<close> counts the slots before the first terminator. It reads slot after
  slot, and runs out of the array when there is no terminator in it.
\<close>

fun strlen :: "char list \<Rightarrow> undefined_behaviour + nat" where
  "strlen [] = Inl OutOfBoundsRead"
| "strlen (c # cs) =
     (if c = NUL then Inr 0
      else case strlen cs of Inl e \<Rightarrow> Inl e | Inr n \<Rightarrow> Inr (Suc n))"

text \<open>
  \<^verbatim>\<open>std::memcpy(dst, src, n)\<close> overwrites the first \<open>n\<close> slots of the destination with
  the first \<open>n\<close> slots of the source; both arrays must have that many slots.
\<close>

definition memcpy :: "char list \<Rightarrow> char list \<Rightarrow> nat \<Rightarrow> undefined_behaviour + char list" where
  "memcpy dst src n =
     (if length src < n then Inl OutOfBoundsRead
      else if length dst < n then Inl OutOfBoundsWrite
      else Inr (take n src @ drop n dst))"

text \<open>The assignment \<^verbatim>\<open>buf[i] = c\<close>.\<close>

definition store :: "char list \<Rightarrow> nat \<Rightarrow> char \<Rightarrow> undefined_behaviour + char list" where
  "store buf i c = (if i < length buf then Inr (buf[i := c]) else Inl OutOfBoundsWrite)"

text \<open>
  \<^verbatim>\<open>
  std::size_t copy_cstr(char* dst, std::size_t dst_size, const char* src) {
    if (dst == nullptr || dst_size == 0) return 0;
    if (src == nullptr) {
      dst[0] = '\0';
      return 0;
    }
    std::size_t n = std::strlen(src);
    if (n >= dst_size) n = dst_size - 1;  // keep room for '\0'
    std::memcpy(dst, src, n);
    dst[n] = '\0';
    return n;
  }
  \<close>
  The model returns the function's result together with the destination as the call
  leaves it.
\<close>

definition copy_cstr ::
  "char_ptr \<Rightarrow> nat \<Rightarrow> char_ptr \<Rightarrow> undefined_behaviour + nat \<times> char_ptr" where
  "copy_cstr dst dst_size src =
     (if dst = None \<or> dst_size = 0 then Inr (0, dst)
      else if src = None then
        (case store (the dst) 0 NUL of
           Inl e \<Rightarrow> Inl e
         | Inr d \<Rightarrow> Inr (0, Some d))
      else
        (case strlen (the src) of
           Inl e \<Rightarrow> Inl e
         | Inr len \<Rightarrow>
             let n = (if len \<ge> dst_size then dst_size - 1 else len) in
             (case memcpy (the dst) (the src) n of
                Inl e \<Rightarrow> Inl e
              | Inr d1 \<Rightarrow>
                  (case store d1 n NUL of
                     Inl e \<Rightarrow> Inl e
                   | Inr d2 \<Rightarrow> Inr (n, Some d2)))))"

subsection \<open>\<^verbatim>\<open>copy_cstr\<close> on one memory\<close>

text \<open>
  Between two calls the source is not a value that stays put: the second call reads it
  again from memory, where the first call has written. For a sequence of calls the memory
  is therefore one array of slots, a non-null pointer is the index of a slot in it, and
  the destination and the source may lie anywhere in it, also inside each other.
\<close>

type_synonym memory = "char list"

type_synonym address = "nat option"

text \<open>
  \<^verbatim>\<open>std::memcpy(dst, src, n)\<close> between two places of the same memory. Copying between
  regions that overlap is undefined.
\<close>

definition memcpy_at :: "memory \<Rightarrow> nat \<Rightarrow> nat \<Rightarrow> nat \<Rightarrow> undefined_behaviour + memory" where
  "memcpy_at mem d s n =
     (if length mem < s + n then Inl OutOfBoundsRead
      else if length mem < d + n then Inl OutOfBoundsWrite
      else if 0 < n \<and> d < s + n \<and> s < d + n then Inl OverlappingCopy
      else Inr (take d mem @ take n (drop s mem) @ drop (d + n) mem))"

text \<open>
  The body of \<^verbatim>\<open>copy_cstr\<close> once more, statement for statement, with \<^verbatim>\<open>dst\<close> and
  \<^verbatim>\<open>src\<close> pointing into the one memory: \<^verbatim>\<open>std::strlen(src)\<close> reads the memory from the
  source's slot on, and \<^verbatim>\<open>dst[n] = '\0'\<close> writes slot \<open>dst + n\<close>. The model returns the
  function's result together with the memory as the call leaves it.
\<close>

definition copy_cstr_mem ::
  "memory \<Rightarrow> address \<Rightarrow> nat \<Rightarrow> address \<Rightarrow> undefined_behaviour + nat \<times> memory" where
  "copy_cstr_mem mem dst dst_size src =
     (if dst = None \<or> dst_size = 0 then Inr (0, mem)
      else if src = None then
        (case store mem (the dst) NUL of
           Inl e \<Rightarrow> Inl e
         | Inr m \<Rightarrow> Inr (0, m))
      else
        (case strlen (drop (the src) mem) of
           Inl e \<Rightarrow> Inl e
         | Inr len \<Rightarrow>
             let n = (if len \<ge> dst_size then dst_size - 1 else len) in
             (case memcpy_at mem (the dst) (the src) n of
                Inl e \<Rightarrow> Inl e
              | Inr m1 \<Rightarrow>
                  (case store m1 (the dst + n) NUL of
                     Inl e \<Rightarrow> Inl e
                   | Inr m2 \<Rightarrow> Inr (n, m2)))))"

text \<open>
  Two calls in succession with the same arguments: the second call runs on the memory as
  the first one left it.
\<close>

definition copy_cstr_twice ::
  "memory \<Rightarrow> address \<Rightarrow> nat \<Rightarrow> address \<Rightarrow> undefined_behaviour + nat \<times> memory" where
  "copy_cstr_twice mem dst dst_size src =
     (case copy_cstr_mem mem dst dst_size src of
        Inl e \<Rightarrow> Inl e
      | Inr (n, mem') \<Rightarrow> copy_cstr_mem mem' dst dst_size src)"

text \<open>
  The source string, terminator included, lies outside the \<open>dst_size\<close> slots of the
  destination. A null pointer and a source without terminator overlap nothing.
\<close>

definition source_outside_destination :: "memory \<Rightarrow> address \<Rightarrow> nat \<Rightarrow> address \<Rightarrow> bool" where
  "source_outside_destination mem dst dst_size src =
     (case (dst, src) of
        (Some d, Some s) \<Rightarrow>
          (case strlen (drop s mem) of
             Inl _ \<Rightarrow> True
           | Inr len \<Rightarrow> s + len < d \<or> d + dst_size \<le> s)
      | _ \<Rightarrow> True)"

subsection \<open>Facts about signed division\<close>

lemma sint_INT_MIN: "sint INT_MIN = - 2147483648"
  by (simp add: INT_MIN_def)

lemma sint_INT_MAX: "sint INT_MAX = 2147483647"
  by (simp add: INT_MAX_def)

lemma sint_cint_range: "- 2147483648 \<le> sint (a::cint) \<and> sint a \<le> 2147483647"
  using sint_ge [of a] sint_lt [of a] by simp

lemma representable_sint: "representable (sint (a::cint))"
  using sint_cint_range [of a] by (simp add: representable_def sint_INT_MIN sint_INT_MAX)

lemma sdiv_abs_le: "\<bar>(k::int) sdiv l\<bar> \<le> \<bar>k\<bar>"
proof -
  have nn: "0 \<le> \<bar>k\<bar> div \<bar>l\<bar>"
    by (simp add: div_int_pos_iff)
  have "\<bar>k sdiv l\<bar> = \<bar>sgn k\<bar> * \<bar>sgn l\<bar> * (\<bar>k\<bar> div \<bar>l\<bar>)"
    using nn by (simp add: signed_divide_int_def abs_mult)
  also have "\<dots> \<le> \<bar>k\<bar> div \<bar>l\<bar>"
    using nn by (cases "k = 0"; cases "l = 0"; simp)
  also have "\<dots> \<le> \<bar>k\<bar>"
  proof (cases "l = 0")
    case True
    then show ?thesis by simp
  next
    case False
    then have "\<bar>k\<bar> div \<bar>l\<bar> \<le> \<bar>k\<bar> div 1"
      by (intro zdiv_mono2) auto
    then show ?thesis by simp
  qed
  finally show ?thesis .
qed

lemma sdiv_eq_neg_self:
  assumes "(k::int) sdiv l = - k" and "k < 0"
  shows "l = - 1"
  using assms by (metis int_sdiv_negated_is_minus1 less_irrefl)

text \<open>The only quotient of two \<^verbatim>\<open>int\<close> values that does not fit is \<open>INT_MIN / -1\<close>.\<close>

lemma quotient_representable:
  fixes a b :: cint
  assumes "\<not> (a = INT_MIN \<and> b = - 1)"
  shows "representable (sint a sdiv sint b)"
proof -
  let ?q = "sint a sdiv sint b"
  have "\<bar>?q\<bar> \<le> \<bar>sint a\<bar>"
    by (rule sdiv_abs_le)
  with sint_cint_range [of a] have bounds: "- 2147483648 \<le> ?q" "?q \<le> 2147483648"
    by linarith+
  have "?q \<noteq> 2147483648"
  proof
    assume top: "?q = 2147483648"
    with \<open>\<bar>?q\<bar> \<le> \<bar>sint a\<bar>\<close> sint_cint_range [of a] have sa: "sint a = - 2147483648"
      by linarith
    with top have "sint a sdiv sint b = - sint a" and "sint a < 0"
      by simp_all
    then have "sint b = - 1"
      by (rule sdiv_eq_neg_self)
    then have "sint b = sint (- 1 :: cint)"
      by simp
    then have "b = - 1"
      by (rule signed_word_eqI)
    moreover from sa have "sint a = sint INT_MIN"
      by (simp add: sint_INT_MIN)
    then have "a = INT_MIN"
      by (rule signed_word_eqI)
    ultimately show False
      using assms by simp
  qed
  with bounds show ?thesis
    by (simp add: representable_def sint_INT_MIN sint_INT_MAX)
qed

lemma sint_word_of_int_representable:
  "representable k \<Longrightarrow> sint (word_of_int k :: cint) = k"
proof -
  assume "representable k"
  then have "- (2 ^ 31) \<le> k" and "k < 2 ^ 31"
    by (simp_all add: representable_def sint_INT_MIN sint_INT_MAX)
  then have "signed_take_bit 31 k = k"
    by (rule signed_take_bit_int_eq_self)
  then show ?thesis
    by (simp add: sint_sbintrunc')
qed

subsection \<open>Rounding the exact quotient towards zero is \<open>sdiv\<close>\<close>

lemma tq_pos: "0 \<le> a \<Longrightarrow> 0 < b \<Longrightarrow> truncating_quotient a b = a div b"
  by (simp add: truncating_quotient_def floor_divide_of_int_eq)

lemma tq_neg: "0 < a \<Longrightarrow> 0 < b \<Longrightarrow> truncating_quotient (- a) b = - (a div b)"
  by (simp add: truncating_quotient_def Let_def ceiling_def floor_divide_of_int_eq
      divide_le_0_iff)

lemma tq_minus_minus: "truncating_quotient (- a) (- b) = truncating_quotient a b"
  by (simp add: truncating_quotient_def)

lemma sdiv_minus_minus: "(- a) sdiv (- b) = (a::int) sdiv b"
  by (simp add: signed_divide_int_def sgn_minus)

lemma sdiv_pos: "0 \<le> a \<Longrightarrow> 0 < b \<Longrightarrow> a sdiv b = a div (b::int)"
  by (cases "a = 0") (simp_all add: signed_divide_int_def)

lemma sdiv_neg: "0 < a \<Longrightarrow> 0 < b \<Longrightarrow> (- a) sdiv b = - (a div (b::int))"
  by (simp add: signed_divide_int_def)

lemma tq_sdiv_pos:
  assumes "0 < b"
  shows "truncating_quotient a b = a sdiv b"
proof (cases "0 \<le> a")
  case True
  then show ?thesis
    using assms by (simp add: tq_pos sdiv_pos)
next
  case False
  then have "0 < - a"
    by simp
  from tq_neg [OF this assms] sdiv_neg [OF this assms] show ?thesis
    by simp
qed

lemma tq_sdiv:
  assumes "b \<noteq> 0"
  shows "truncating_quotient a b = a sdiv b"
proof (cases "0 < b")
  case True
  then show ?thesis
    by (rule tq_sdiv_pos)
next
  case False
  with assms have "0 < - b"
    by simp
  from tq_sdiv_pos [OF this, of "- a"] show ?thesis
    by (simp add: tq_minus_minus sdiv_minus_minus)
qed

lemma safe_div_nonzero:
  assumes "b \<noteq> 0" and "\<not> (a = INT_MIN \<and> b = - 1)"
  shows "safe_div a b = Inr (word_of_int (sint a sdiv sint b))"
  using assms quotient_representable [of a b]
  by (simp add: safe_div_def int_divide_def)

subsection \<open>Claims about \<^verbatim>\<open>safe_div\<close>\<close>

text \<open>
  C5. For every \<^verbatim>\<open>int\<close> \<open>a\<close>, \<^verbatim>\<open>safe_div(a, 0)\<close> returns the sentinel \<open>0\<close>; the call
  is defined and signals no error.
\<close>

theorem safe_div_zero_divisor: "safe_div a 0 = Inr 0"
  by (simp add: safe_div_def)

theorem safe_div_zero_divisor_witness: "safe_div 10 0 = Inr 0"
  using safe_div_zero_divisor [of 10] by simp

text \<open>
  C9. For every \<^verbatim>\<open>int\<close> \<open>a\<close>, \<^verbatim>\<open>safe_div(a, 1)\<close> returns \<open>a\<close>: division by one is
  the identity.
\<close>

theorem safe_div_one: "safe_div a 1 = Inr a"
  using representable_sint [of a] by (simp add: safe_div_def int_divide_def)

theorem safe_div_one_witness: "safe_div (- 2147483648) 1 = Inr (- 2147483648)"
  using safe_div_one [of "- 2147483648"] by simp

text \<open>
  C3, as claimed: \<^verbatim>\<open>safe_div\<close> is defined on every pair of operands. It is not: the
  minimum value divided by \<open>-1\<close> has the quotient \<open>2147483648\<close>, which is not an
  \<^verbatim>\<open>int\<close>, and the division \<^verbatim>\<open>a / b\<close> is undefined there.
\<close>

theorem safe_div_min_by_minus_one_undefined:
  "safe_div (- 2147483648) (- 1) = Inl QuotientOverflow"
  by (simp add: safe_div_def int_divide_def representable_def sint_INT_MIN sint_INT_MAX)

text \<open>
  C3, amended. For every pair of \<^verbatim>\<open>int\<close> operands other than the minimum value
  divided by \<open>-1\<close>, and in particular for every pair with a zero divisor, the call is
  defined: it returns a value and neither traps nor raises an error.
\<close>

theorem safe_div_defined:
  "\<not> (a = INT_MIN \<and> b = - 1) \<Longrightarrow> div_defined a b"
proof (cases "b = 0")
  case True
  then show ?thesis
    by (simp add: div_defined_def safe_div_def)
next
  case False
  assume "\<not> (a = INT_MIN \<and> b = - 1)"
  with False show ?thesis
    by (simp add: div_defined_def safe_div_nonzero)
qed

theorem safe_div_defined_witness:
  "\<not> (INT_MIN = INT_MIN \<and> (0::cint) = - 1) \<and> div_defined INT_MIN 0"
  using safe_div_defined [of INT_MIN 0] by simp

text \<open>
  C4, as claimed: for every pair with a nonzero divisor the call returns the truncating
  quotient. At the minimum value and \<open>-1\<close> the divisor is nonzero and the call returns
  nothing.
\<close>

theorem safe_div_min_by_minus_one_no_quotient:
  "(- 1 :: cint) \<noteq> 0 \<and> \<not> returns_truncating_quotient (- 2147483648) (- 1)"
  by (simp add: returns_truncating_quotient_def safe_div_def int_divide_def
      representable_def sint_INT_MIN sint_INT_MAX)

text \<open>
  C4, amended. For every pair of \<^verbatim>\<open>int\<close> operands with a nonzero divisor, other than
  the minimum value divided by \<open>-1\<close>, the call returns the quotient of the two signed
  values rounded towards zero.
\<close>

theorem safe_div_truncates:
  assumes "b \<noteq> 0" and "\<not> (a = INT_MIN \<and> b = - 1)"
  shows "returns_truncating_quotient a b"
proof -
  have "sint b \<noteq> 0"
    using assms(1) by (simp add: signed_eq_0_iff)
  then have "truncating_quotient (sint a) (sint b) = sint a sdiv sint b"
    by (rule tq_sdiv)
  moreover have "sint (word_of_int (sint a sdiv sint b) :: cint) = sint a sdiv sint b"
    using assms(2) by (intro sint_word_of_int_representable quotient_representable)
  ultimately show ?thesis
    using assms by (simp add: returns_truncating_quotient_def safe_div_nonzero)
qed

theorem safe_div_truncates_witness:
  "(2::cint) \<noteq> 0 \<and> \<not> (- 7 = INT_MIN \<and> (2::cint) = - 1) \<and> returns_truncating_quotient (- 7) 2"
  using safe_div_truncates [of 2 "- 7"] by (simp add: INT_MIN_def)

subsection \<open>Facts about \<^verbatim>\<open>copy_cstr\<close>\<close>

lemma strlen_terminated:
  "NUL \<notin> set str \<Longrightarrow> strlen (str @ NUL # rest) = Inr (length str)"
  by (induction str) auto

lemma strlen_unterminated:
  "NUL \<notin> set s \<Longrightarrow> strlen s = Inl OutOfBoundsRead"
  by (induction s) auto

lemma strlen_Inr:
  "strlen s = Inr len \<Longrightarrow> len < length s \<and> s ! len = NUL \<and> NUL \<notin> set (take len s)"
proof (induction s arbitrary: len)
  case Nil
  then show ?case by simp
next
  case (Cons c cs)
  show ?case
  proof (cases "c = NUL")
    case True
    with Cons.prems show ?thesis by simp
  next
    case False
    with Cons.prems obtain m where m: "strlen cs = Inr m" "len = Suc m"
      by (auto split: sum.splits)
    from Cons.IH [OF m(1)] False m(2) show ?thesis by simp
  qed
qed

lemma terminated_split:
  "NUL \<in> set s \<Longrightarrow> \<exists>str rest. s = str @ NUL # rest \<and> NUL \<notin> set str"
  by (rule split_list_first)

lemma copy_cstr_null_src:
  "0 < dst_size \<Longrightarrow> buf \<noteq> [] \<Longrightarrow>
   copy_cstr (Some buf) dst_size None = Inr (0, Some (buf[0 := NUL]))"
  by (simp add: copy_cstr_def store_def)

lemma memcpy_in_bounds:
  "n \<le> length s \<Longrightarrow> n \<le> length buf \<Longrightarrow> memcpy buf s n = Inr (take n s @ drop n buf)"
  by (simp add: memcpy_def)

lemma store_terminator:
  assumes "n \<le> length s" and "n < length buf"
  shows "store (take n s @ drop n buf) n NUL = Inr (take n s @ NUL # drop (Suc n) buf)"
proof -
  have "length (take n s) = n"
    using assms(1) by simp
  then have "(take n s @ drop n buf)[n := NUL] = take n s @ (drop n buf)[0 := NUL]"
    by (simp add: list_update_append)
  moreover have "drop n buf = buf ! n # drop (Suc n) buf"
    using assms(2) by (simp add: Cons_nth_drop_Suc)
  ultimately show ?thesis
    using assms by (simp add: store_def)
qed

lemma copy_cstr_string:
  assumes "0 < dst_size" and "dst_size \<le> length buf" and "strlen s = Inr len"
  shows "copy_cstr (Some buf) dst_size (Some s) =
           Inr (min len (dst_size - 1),
                Some (take (min len (dst_size - 1)) s @ NUL # drop (Suc (min len (dst_size - 1))) buf))"
proof -
  define n where "n = min len (dst_size - 1)"
  have n: "(if len \<ge> dst_size then dst_size - 1 else len) = n"
    using assms(1) by (auto simp: n_def min_def)
  from strlen_Inr [OF assms(3)] have "len < length s"
    by simp
  then have ns: "n \<le> length s"
    by (simp add: n_def)
  have nb: "n < length buf"
    using assms(1,2) unfolding n_def by arith
  have "copy_cstr (Some buf) dst_size (Some s) = Inr (n, Some (take n s @ NUL # drop (Suc n) buf))"
    using assms(1) ns nb
    by (simp add: copy_cstr_def assms(3) n memcpy_in_bounds store_terminator)
  then show ?thesis
    by (simp only: n_def)
qed

lemma copy_cstr_result_cases:
  assumes "0 < dst_size" and "dst_size \<le> length buf"
    and "src = None \<or> (\<exists>s. src = Some s \<and> NUL \<in> set s)"
  obtains (null) "src = None"
      "copy_cstr (Some buf) dst_size src = Inr (0, Some (buf[0 := NUL]))"
  | (string) s str rest where "src = Some s" "s = str @ NUL # rest" "NUL \<notin> set str"
      "copy_cstr (Some buf) dst_size src =
         Inr (min (length str) (dst_size - 1),
              Some (take (min (length str) (dst_size - 1)) str @ NUL #
                    drop (Suc (min (length str) (dst_size - 1))) buf))"
proof (cases src)
  case None
  moreover from assms(1,2) have "buf \<noteq> []" by auto
  ultimately show ?thesis
    using assms(1) null by (simp add: copy_cstr_null_src)
next
  case (Some s)
  with assms(3) have "NUL \<in> set s" by simp
  then obtain str rest where s: "s = str @ NUL # rest" "NUL \<notin> set str"
    using terminated_split by blast
  then have "strlen s = Inr (length str)"
    by (simp add: strlen_terminated)
  from copy_cstr_string [OF assms(1,2) this] s Some show ?thesis
    by (intro string [of s str rest]) simp_all
qed



subsection \<open>Facts about \<^verbatim>\<open>copy_cstr\<close> on one memory\<close>

lemma strlen_prefix:
  assumes "strlen xs = Inr len" and "take (Suc len) ys = take (Suc len) xs"
  shows "strlen ys = Inr len"
proof -
  from strlen_Inr [OF assms(1)] have len: "len < length xs" "xs ! len = NUL"
    and clean: "NUL \<notin> set (take len xs)"
    by simp_all
  from len have "take (Suc len) xs = take len xs @ [NUL]"
    by (simp add: take_Suc_conv_app_nth)
  with assms(2) have "take (Suc len) ys = take len xs @ [NUL]"
    by simp
  then have "ys = (take len xs @ [NUL]) @ drop (Suc len) ys"
    by (metis append_take_drop_id)
  then have "ys = take len xs @ NUL # drop (Suc len) ys"
    by simp
  then have "strlen ys = strlen (take len xs @ NUL # drop (Suc len) ys)"
    by simp
  also have "\<dots> = Inr (length (take len xs))"
    using clean by (rule strlen_terminated)
  also have "length (take len xs) = len"
    using len(1) by simp
  finally show ?thesis .
qed

lemma memcpy_at_nth:
  assumes "d + n \<le> length mem" and "s + n \<le> length mem" and "i < length mem"
  shows "(take d mem @ take n (drop s mem) @ drop (d + n) mem) ! i =
           (if d \<le> i \<and> i < d + n then mem ! (s + (i - d)) else mem ! i)"
proof -
  have ld: "length (take d mem) = d" and ln: "length (take n (drop s mem)) = n"
    using assms(1,2) by simp_all
  show ?thesis
  proof (cases "i < d")
    case True
    then show ?thesis
      using ld by (simp add: nth_append)
  next
    case False
    note past_d = this
    show ?thesis
    proof (cases "i < d + n")
      case True
      with past_d have "i - d < n"
        by simp
      then have "(take n (drop s mem) @ drop (d + n) mem) ! (i - d) = mem ! (s + (i - d))"
        using ln assms(2) by (simp add: nth_append del: length_take)
      with past_d True show ?thesis
        using ld by (simp add: nth_append del: length_take)
    next
      case False
      with past_d have "\<not> i - d < n"
        by simp
      then have "(take n (drop s mem) @ drop (d + n) mem) ! (i - d) = drop (d + n) mem ! (i - d - n)"
        using ln by (simp only: nth_append if_False)
      also have "\<dots> = mem ! i"
        using False assms(1) by simp
      finally show ?thesis
        using past_d False ld by (simp add: nth_append del: length_take)
    qed
  qed
qed

lemma memcpy_at_length:
  assumes "d + n \<le> length mem" and "s + n \<le> length mem"
  shows "length (take d mem @ take n (drop s mem) @ drop (d + n) mem) = length mem"
  using assms by simp

lemma memcpy_at_Inr:
  assumes "memcpy_at mem d s n = Inr m1"
  shows "s + n \<le> length mem" and "d + n \<le> length mem"
    and "\<not> (0 < n \<and> d < s + n \<and> s < d + n)"
    and "m1 = take d mem @ take n (drop s mem) @ drop (d + n) mem"
  using assms by (simp_all add: memcpy_at_def split: if_splits)

lemma store_Inr:
  assumes "store buf i c = Inr buf'"
  shows "i < length buf" and "buf' = buf[i := c]"
  using assms by (simp_all add: store_def split: if_splits)

lemma copy_cstr_mem_string_again:
  assumes size: "0 < dst_size"
    and len: "strlen (drop s mem) = Inr len"
    and sep: "s + len < d \<or> d + dst_size \<le> s"
    and m: "m = (if len \<ge> dst_size then dst_size - 1 else len)"
    and cp: "memcpy_at mem d s m = Inr m1"
    and st: "store m1 (d + m) NUL = Inr mem'"
  shows "copy_cstr_mem mem' (Some d) dst_size (Some s) = Inr (m, mem')"
proof -
  note cp' = memcpy_at_Inr [OF cp]
  note st' = store_Inr [OF st]
  have m_le: "m \<le> len" and m_less: "m < dst_size"
    using size unfolding m by (simp_all, arith)
  have len_m1: "length m1 = length mem"
    using cp'(1,2) by (simp add: cp'(4))
  then have len_mem': "length mem' = length mem"
    by (simp add: st'(2))
  have dm: "d + m < length mem"
    using st'(1) len_m1 by simp
  have nth_mem': "mem' ! i =
      (if i = d + m then NUL else if d \<le> i \<and> i < d + m then mem ! (s + (i - d)) else mem ! i)"
    if "i < length mem" for i
  proof -
    have "m1 ! i = (if d \<le> i \<and> i < d + m then mem ! (s + (i - d)) else mem ! i)"
      unfolding cp'(4) using cp'(2,1) that by (rule memcpy_at_nth)
    then show ?thesis
      using that len_m1 by (simp add: st'(2) nth_list_update)
  qed
  from strlen_Inr [OF len] have "len < length (drop s mem)"
    by (rule conjunct1)
  then have s_len: "s + len < length mem"
    by simp
  have src_same: "mem' ! (s + j) = mem ! (s + j)" if "j \<le> len" for j
  proof -
    from that s_len have "s + j < length mem"
      by simp
    moreover from that sep m_less have "s + j < d \<or> d + m < s + j"
      by linarith
    ultimately show ?thesis
      by (auto simp: nth_mem')
  qed
  have "take (Suc len) (drop s mem') = take (Suc len) (drop s mem)"
  proof (rule nth_equalityI)
    show "length (take (Suc len) (drop s mem')) = length (take (Suc len) (drop s mem))"
      by (simp add: len_mem')
  next
    fix j
    assume "j < length (take (Suc len) (drop s mem'))"
    then have "j < Suc len"
      by simp
    then have j: "j \<le> len" "s + j < length mem"
      using s_len by simp_all
    then show "take (Suc len) (drop s mem') ! j = take (Suc len) (drop s mem) ! j"
      using src_same [of j] len_mem' by simp
  qed
  with len have len': "strlen (drop s mem') = Inr len"
    by (rule strlen_prefix)
  have "take d mem' @ take m (drop s mem') @ drop (d + m) mem' = mem'"
  proof (rule nth_equalityI)
    show "length (take d mem' @ take m (drop s mem') @ drop (d + m) mem') = length mem'"
      using cp'(1,2) len_mem' by simp
  next
    fix i
    assume "i < length (take d mem' @ take m (drop s mem') @ drop (d + m) mem')"
    then have i: "i < length mem'"
      using cp'(1,2) len_mem' by simp
    with cp'(1,2) len_mem'
    have "(take d mem' @ take m (drop s mem') @ drop (d + m) mem') ! i =
        (if d \<le> i \<and> i < d + m then mem' ! (s + (i - d)) else mem' ! i)"
      by (intro memcpy_at_nth) simp_all
    moreover have "mem' ! (s + (i - d)) = mem' ! i" if "d \<le> i" and "i < d + m"
    proof -
      from that m_le have "i - d \<le> len"
        by simp
      then have "mem' ! (s + (i - d)) = mem ! (s + (i - d))"
        by (rule src_same)
      also have "\<dots> = mem' ! i"
        using that i len_mem' by (simp add: nth_mem')
      finally show ?thesis .
    qed
    ultimately show "(take d mem' @ take m (drop s mem') @ drop (d + m) mem') ! i = mem' ! i"
      by simp
  qed
  then have cp2: "memcpy_at mem' d s m = Inr mem'"
    using cp'(1,2,3) len_mem' by (simp add: memcpy_at_def)
  have "mem'[d + m := NUL] = mem'"
    by (simp add: st'(2))
  then have st2: "store mem' (d + m) NUL = Inr mem'"
    using dm len_mem' by (simp add: store_def)
  show ?thesis
    using size by (simp add: copy_cstr_mem_def len' m [symmetric] cp2 st2)
qed

lemma copy_cstr_mem_again:
  assumes sep: "source_outside_destination mem dst dst_size src"
    and first: "copy_cstr_mem mem dst dst_size src = Inr (n, mem')"
  shows "copy_cstr_mem mem' dst dst_size src = Inr (n, mem')"
proof (cases "dst = None \<or> dst_size = 0")
  case True
  with first show ?thesis
    by (auto simp: copy_cstr_mem_def)
next
  case False
  then obtain d where dst: "dst = Some d" and size: "0 < dst_size"
    by auto
  show ?thesis
  proof (cases src)
    case None
    with first dst size show ?thesis
      by (auto simp: copy_cstr_mem_def store_def split: if_splits)
  next
    case (Some s)
    from first dst size Some obtain len where len: "strlen (drop s mem) = Inr len"
      by (auto simp: copy_cstr_mem_def split: sum.splits)
    define m where "m = (if len \<ge> dst_size then dst_size - 1 else len)"
    from first dst size Some len obtain m1
      where cp: "memcpy_at mem d s m = Inr m1" and st: "store m1 (d + m) NUL = Inr mem'"
        and n: "n = m"
      by (auto simp: copy_cstr_mem_def Let_def m_def [symmetric] split: sum.splits)
    from sep dst Some len have "s + len < d \<or> d + dst_size \<le> s"
      by (simp add: source_outside_destination_def)
    from copy_cstr_mem_string_again [OF size len this m_def cp st] show ?thesis
      by (simp add: dst Some n)
  qed
qed

subsection \<open>Claims about \<^verbatim>\<open>copy_cstr\<close>\<close>





text \<open>
  C6. For every call whose destination is null or whose \<open>dst_size\<close> is \<open>0\<close>, whatever
  the source: the call returns \<open>0\<close> and the destination, if there is one, is unchanged.
\<close>

theorem copy_cstr_no_destination:
  "dst = None \<or> dst_size = 0 \<Longrightarrow> copy_cstr dst dst_size src = Inr (0, dst)"
  by (simp add: copy_cstr_def)

theorem copy_cstr_no_destination_witness:
  "copy_cstr None 10 (Some (''abc'' @ [NUL])) = Inr (0, None) \<and>
   copy_cstr (Some (''xxx'' @ [NUL])) 0 (Some (''abc'' @ [NUL])) = Inr (0, Some (''xxx'' @ [NUL]))"
  using copy_cstr_no_destination [of None 10 "Some (''abc'' @ [NUL])"]
    copy_cstr_no_destination [of "Some (''xxx'' @ [NUL])" 0 "Some (''abc'' @ [NUL])"]
  by simp

text \<open>
  C7. For every call with a non-null destination, \<open>dst_size > 0\<close> and a null source: the
  call returns \<open>0\<close>, slot \<open>0\<close> of the destination becomes the terminator, and every other
  slot is as it was.
\<close>

theorem copy_cstr_absent_source:
  assumes "0 < dst_size" and "buf \<noteq> []"
  shows "\<exists>buf'. copy_cstr (Some buf) dst_size None = Inr (0, Some buf') \<and>
           buf' = buf[0 := NUL] \<and> buf' ! 0 = NUL \<and>
           length buf' = length buf \<and> drop 1 buf' = drop 1 buf"
proof -
  from assms have "copy_cstr (Some buf) dst_size None = Inr (0, Some (buf[0 := NUL]))"
    by (rule copy_cstr_null_src)
  moreover from assms(2) have "buf[0 := NUL] ! 0 = NUL"
    by simp
  ultimately show ?thesis
    by simp
qed

theorem copy_cstr_absent_source_witness:
  "\<exists>buf'. copy_cstr (Some ''xyz'') 3 None = Inr (0, Some buf') \<and>
     buf' = ''xyz''[0 := NUL] \<and> buf' ! 0 = NUL \<and>
     length buf' = length ''xyz'' \<and> drop 1 buf' = drop 1 ''xyz''"
proof -
  have "0 < (3::nat)" and "''xyz'' \<noteq> []"
    by simp_all
  then show ?thesis
    by (rule copy_cstr_absent_source)
qed

text \<open>
  C8, as claimed: for every destination, \<open>dst_size\<close> and source, two calls in succession
  with the same arguments leave the same destination contents and return the same value
  as one call. Not when the source lies in the destination's slots: with the memory
  \<^verbatim>\<open>xxabcd\<close> and its terminator, the destination at slot 0 with \<open>dst_size = 3\<close> and the
  source at slot 2, the first call copies two units between disjoint regions, writes the
  terminator onto the first unit of the source and returns 2; the second call finds an
  empty source, writes the terminator at slot 0 and returns 0.
\<close>

theorem copy_cstr_source_in_destination_not_idempotent:
  "copy_cstr_mem (''xxabcd'' @ [NUL]) (Some 0) 3 (Some 2) =
     Inr (2, ''ab'' @ NUL # ''bcd'' @ [NUL]) \<and>
   copy_cstr_twice (''xxabcd'' @ [NUL]) (Some 0) 3 (Some 2) =
     Inr (0, NUL # ''b'' @ NUL # ''bcd'' @ [NUL])"
  by code_simp

text \<open>
  C8, amended. For every memory, destination, \<open>dst_size\<close> and source such that the source
  string, terminator included, lies outside the \<open>dst_size\<close> slots of the destination (a
  null destination or source overlaps nothing): two calls in succession with the same
  arguments end in the same outcome as one call, with the same memory contents and the
  same return value.
\<close>

theorem copy_cstr_idempotent:
  assumes "source_outside_destination mem dst dst_size src"
  shows "copy_cstr_twice mem dst dst_size src = copy_cstr_mem mem dst dst_size src"
proof (cases "copy_cstr_mem mem dst dst_size src")
  case (Inl e)
  then show ?thesis
    by (simp add: copy_cstr_twice_def)
next
  case (Inr r)
  obtain n mem' where "r = (n, mem')"
    by (cases r)
  with Inr copy_cstr_mem_again [OF assms, of n mem'] show ?thesis
    by (simp add: copy_cstr_twice_def)
qed

theorem copy_cstr_idempotent_witness:
  "source_outside_destination (''xxxx'' @ ''abcdef'' @ [NUL]) (Some 0) 4 (Some 4) \<and>
   copy_cstr_twice (''xxxx'' @ ''abcdef'' @ [NUL]) (Some 0) 4 (Some 4) =
     copy_cstr_mem (''xxxx'' @ ''abcdef'' @ [NUL]) (Some 0) 4 (Some 4) \<and>
   copy_cstr_mem (''xxxx'' @ ''abcdef'' @ [NUL]) (Some 0) 4 (Some 4) =
     Inr (3, ''abc'' @ NUL # ''abcdef'' @ [NUL])"
proof -
  have outside: "source_outside_destination (''xxxx'' @ ''abcdef'' @ [NUL]) (Some 0) 4 (Some 4)"
    by code_simp
  moreover note copy_cstr_idempotent [OF outside]
  moreover have "copy_cstr_mem (''xxxx'' @ ''abcdef'' @ [NUL]) (Some 0) 4 (Some 4) =
      Inr (3, ''abc'' @ NUL # ''abcdef'' @ [NUL])"
    by code_simp
  ultimately show ?thesis
    by (intro conjI)
qed

text \<open>
  C10. For every call with a non-null destination and \<open>dst_size\<close> exactly \<open>1\<close>, whether the
  source is null or a terminated string of any length: the call returns \<open>0\<close>, copies no
  unit of the source, and slot \<open>0\<close> of the destination becomes the terminator.
\<close>

theorem copy_cstr_capacity_one:
  assumes "buf \<noteq> []"
    and "src = None \<or> (\<exists>s. src = Some s \<and> NUL \<in> set s)"
  shows "copy_cstr (Some buf) 1 src = Inr (0, Some (buf[0 := NUL]))"
proof -
  from assms(1) have "0 < (1::nat)" and "1 \<le> length buf"
    by (simp_all add: Suc_le_eq)
  then show ?thesis
    using assms(2)
  proof (cases rule: copy_cstr_result_cases)
    case null
    then show ?thesis by simp
  next
    case (string s str rest)
    moreover from assms(1) have "NUL # drop (Suc 0) buf = buf[0 := NUL]"
      by (cases buf) simp_all
    ultimately show ?thesis
      by simp
  qed
qed

theorem copy_cstr_capacity_one_witness:
  "copy_cstr (Some ''xyz'') 1 (Some (''abcdef'' @ [NUL])) = Inr (0, Some (NUL # ''yz''))"
proof -
  have "''xyz'' \<noteq> []"
    by simp
  moreover have "Some (''abcdef'' @ [NUL]) = None \<or>
      (\<exists>s. Some (''abcdef'' @ [NUL]) = Some s \<and> NUL \<in> set s)"
    by simp
  ultimately have "copy_cstr (Some ''xyz'') 1 (Some (''abcdef'' @ [NUL])) =
      Inr (0, Some (''xyz''[0 := NUL]))"
    by (rule copy_cstr_capacity_one)
  then show ?thesis
    by simp
qed

end
